theory Spec2Isabelle
  imports Main
begin

section \<open>Strings of the build script\<close>

text \<open>
  A JavaScript string is a sequence of UTF-16 code units. The model is \<^typ>\<open>string\<close>:
  a \<^typ>\<open>char\<close> stands for the code unit of the same number, so the strings covered are
  those whose code units lie in U+0000 .. U+00FF (ASCII and the Latin-1 supplement).
  On that range the library functions used by \<open>build.js\<close> are modelled exactly as
  ECMAScript defines them. No surrogate code unit lies in the range, so
  \<open>encodeURIComponent\<close> never throws on a modelled string.
\<close>

text \<open>
  White space of \<open>String.prototype.trim\<close> and of the class \<open>\s\<close>: TAB, LF, VT, FF, CR,
  SPACE and NO-BREAK SPACE are the members below U+0100.
\<close>

definition isWhiteSpace :: "char \<Rightarrow> bool" where
  "isWhiteSpace c \<longleftrightarrow>
     c \<in> set [CHR 0x09, CHR 0x0A, CHR 0x0B, CHR 0x0C, CHR 0x0D, CHR 0x20, CHR 0xA0]"

definition trimStart :: "string \<Rightarrow> string" where
  "trimStart s = dropWhile isWhiteSpace s"

definition trimEnd :: "string \<Rightarrow> string" where
  "trimEnd s = rev (dropWhile isWhiteSpace (rev s))"

text \<open>\<open>s.trim()\<close>\<close>

definition trim :: "string \<Rightarrow> string" where
  "trim s = trimEnd (trimStart s)"

text \<open>
  \<open>s.toLowerCase()\<close>: below U+0100 the letters with a lower-case mapping are A .. Z
  and U+00C0 .. U+00DE without the multiplication sign U+00D7; each maps to the code
  unit 32 above it.
\<close>

definition toLowerUnit :: "char \<Rightarrow> char" where
  "toLowerUnit c =
     (let n = (of_char c :: nat)
      in if (65 \<le> n \<and> n \<le> 90) \<or> (192 \<le> n \<and> n \<le> 222 \<and> n \<noteq> 215)
         then char_of (n + 32) else c)"

definition toLowerCase :: "string \<Rightarrow> string" where
  "toLowerCase s = map toLowerUnit s"

text \<open>
  \<open>s.replace(/\./g, '')\<close>: the global replace scans from the left; where the pattern
  matches, the match is replaced (here by the empty string) and the scan goes on behind
  it, otherwise the code unit is copied.
\<close>

fun replace_period :: "string \<Rightarrow> string" where
  "replace_period [] = []"
| "replace_period (c # cs) =
     (if c = CHR ''.'' then [] @ replace_period cs else c # replace_period cs)"

text \<open>
  \<open>s.replace(/\s+/g, '-')\<close>: \<open>\s+\<close> is greedy, so a match starting at a white-space
  code unit takes all the white space that follows it.
\<close>

function replace_spaces :: "string \<Rightarrow> string" where
  "replace_spaces [] = []"
| "replace_spaces (c # cs) =
     (if isWhiteSpace c then ''-'' @ replace_spaces (dropWhile isWhiteSpace cs)
      else c # replace_spaces cs)"
  by pat_completeness auto
termination
  by (relation "measure length") (auto simp: length_dropWhile_le less_Suc_eq_le)

text \<open>
  \<open>encodeURIComponent\<close>: letters, digits and the marks \<open>- _ . ! ~ * ' ( )\<close> are kept;
  every other code unit is written as the bytes of its UTF-8 encoding, each byte as
  \<open>%\<close> and two upper-case hexadecimal digits.
\<close>

definition uriUnreserved :: "char \<Rightarrow> bool" where
  "uriUnreserved c \<longleftrightarrow>
     c \<in> set (''abcdefghijklmnopqrstuvwxyz'' @ ''ABCDEFGHIJKLMNOPQRSTUVWXYZ'' @
              ''0123456789'' @ [CHR ''-'', CHR ''_'', CHR ''.'', CHR ''!'', CHR ''~'',
                               CHR ''*'', CHR 0x27, CHR ''('', CHR '')''])"

definition hexDigit :: "nat \<Rightarrow> char" where
  "hexDigit n = ''0123456789ABCDEF'' ! n"

definition percentByte :: "nat \<Rightarrow> string" where
  "percentByte b = [CHR ''%'', hexDigit (b div 16), hexDigit (b mod 16)]"

definition utf8 :: "nat \<Rightarrow> nat list" where
  \<comment> \<open>code points below U+0800; the model only has code points below U+0100\<close>
  "utf8 n = (if n < 128 then [n] else [192 + n div 64, 128 + n mod 64])"

definition encodeUnit :: "char \<Rightarrow> string" where
  "encodeUnit c =
     (if uriUnreserved c then [c] else concat (map percentByte (utf8 (of_char c))))"

definition encodeURIComponent :: "string \<Rightarrow> string" where
  "encodeURIComponent s = concat (map encodeUnit s)"

section \<open>The slug function\<close>

text \<open>
  \<^verbatim>\<open>
  function slugify(s) {
    return encodeURIComponent(String(s).trim().toLowerCase().replace(/\./g, '').replace(/\s+/g, '-'));
  }
  \<close>
  \<open>String(s)\<close> is the identity on a string.
\<close>

definition slugify :: "string \<Rightarrow> string" where
  "slugify s =
     encodeURIComponent (replace_spaces (replace_period (toLowerCase (trim s))))"

section \<open>Numbers read from text\<close>

text \<open>
  \<open>s.substring(start)\<close> with a start that is not negative.
\<close>

definition substring :: "string \<Rightarrow> nat \<Rightarrow> string" where
  "substring s start = drop (min start (length s)) s"

text \<open>
  \<open>parseInt(s)\<close> without a radix: leading white space is skipped, a sign is read, the
  prefix \<open>0x\<close> or \<open>0X\<close> selects radix 16 (radix 10 otherwise), and the longest run of
  digits of the radix is the numeral. Without a digit the result is \<open>NaN\<close>, here
  \<open>None\<close>. The result is the mathematical integer; the script only compares it with
  2 and 3, which the rounding of a JavaScript number does not affect.
\<close>

definition digitValue :: "char \<Rightarrow> nat option" where
  "digitValue c =
     (let n = (of_char c :: nat)
      in if 48 \<le> n \<and> n \<le> 57 then Some (n - 48)
         else if 97 \<le> n \<and> n \<le> 102 then Some (n - 87)
         else if 65 \<le> n \<and> n \<le> 70 then Some (n - 55)
         else None)"

fun radixDigits :: "nat \<Rightarrow> string \<Rightarrow> nat list" where
  "radixDigits R [] = []"
| "radixDigits R (c # cs) =
     (case digitValue c of
        Some d \<Rightarrow> if d < R then d # radixDigits R cs else []
      | None \<Rightarrow> [])"

definition parseInt :: "string \<Rightarrow> int option" where
  "parseInt inputString =
     (let S = trimStart inputString;
          sign = (if S \<noteq> [] \<and> hd S = CHR ''-'' then - 1 else 1 :: int);
          S = (if S \<noteq> [] \<and> (hd S = CHR ''+'' \<or> hd S = CHR ''-'') then tl S else S);
          hex = (2 \<le> length S \<and> (take 2 S = ''0x'' \<or> take 2 S = ''0X''));
          R = (if hex then 16 else 10);
          S = (if hex then drop 2 S else S);
          Z = radixDigits R S
      in if Z = [] then None
         else Some (sign * int (foldl (\<lambda>a d. a * R + d) 0 Z)))"

section \<open>Data of the build script\<close>

text \<open>
  A page of the manifest.
\<close>

record page =
  src :: string
  dest :: string
  title :: string
  nav :: string

text \<open>
  A token of the markdown parser, with the three fields the script reads.
\<close>

record token =
  type :: string
  tag :: string
  content :: string

text \<open>
  An entry of the heading list, \<open>{ level, content, id }\<close>. The primes keep the fields
  apart from the token's \<open>content\<close> and from the identity function.
\<close>

record heading =
  level :: int
  content' :: string
  id' :: string

text \<open>
  Reading a property of \<open>undefined\<close> throws a \<open>TypeError\<close>.
\<close>

datatype error = TypeError

text \<open>
  \<open>xs[i]\<close> on an array: \<open>undefined\<close>, here \<open>None\<close>, outside the array.
\<close>

definition at :: "'a list \<Rightarrow> int \<Rightarrow> 'a option" where
  "at xs i = (if 0 \<le> i \<and> i < int (length xs) then Some (xs ! nat i) else None)"

section \<open>Page furniture\<close>

text \<open>
  The script reads the manifest \<open>pages\<close> as a module constant; the generators below
  take it as their first argument.
\<close>

text \<open>
  \<^verbatim>\<open>
  function generateNav(currentPage) {
    let nav = '<ul class="nav-list">\n';
    pages.forEach(page => {
      const isActive = page.dest === currentPage;
      const activeClass = isActive ? ' class="active"' : '';
      nav += `  <li${activeClass}><a href="${page.dest}">${page.nav}</a></li>\n`;
    });
    nav += '</ul>';
    return nav;
  }
  \<close>
\<close>

definition generateNav :: "page list \<Rightarrow> string \<Rightarrow> string" where
  \<open>generateNav pages currentPage =
     (let nav = ''<ul class="nav-list">\<newline>'';
          nav = foldl (\<lambda>nav page.
                   let isActive = (dest page = currentPage);
                       activeClass = (if isActive then '' class="active"'' else '''')
                   in nav @ ''  <li'' @ activeClass @ ''><a href="'' @ dest page @ ''">'' @
                      page.nav page @ ''</a></li>\<newline>'') nav pages;
          nav = nav @ ''</ul>''
      in nav)\<close>

text \<open>
  \<^verbatim>\<open>
  function generateBreadcrumb(pageTitle) {
    if (pageTitle === 'Getting Started') {
      return '<div class="breadcrumb"><span>Home</span></div>';
    }
    return `<div class="breadcrumb"><a href="index.html">Home</a> / <span>${pageTitle}</span></div>`;
  }
  \<close>
\<close>

definition generateBreadcrumb :: "string \<Rightarrow> string" where
  \<open>generateBreadcrumb pageTitle =
     (if pageTitle = ''Getting Started''
      then ''<div class="breadcrumb"><span>Home</span></div>''
      else ''<div class="breadcrumb"><a href="index.html">Home</a> / <span>'' @ pageTitle @
           ''</span></div>'')\<close>

text \<open>
  The arrows of the pager labels, U+2190 and U+2192, lie above U+00FF. Each is carried
  as the three bytes it has in \<open>build.js\<close> and in the written page; no function of
  the script looks inside them.
\<close>

definition larr :: string where
  "larr = [CHR 0xE2, CHR 0x86, CHR 0x90]"

definition rarr :: string where
  "rarr = [CHR 0xE2, CHR 0x86, CHR 0x92]"

text \<open>
  \<^verbatim>\<open>
  function generatePageNav(currentIndex) {
    const prev = currentIndex > 0 ? pages[currentIndex - 1] : null;
    const next = currentIndex < pages.length - 1 ? pages[currentIndex + 1] : null;
    let html = '<footer class="page-nav">\n';
    if (prev) { html += `  <a href="${prev.dest}" class="prev">(larr) ${prev.nav}</a>\n`; }
    else { html += '  <span></span>\n'; }
    if (next) { html += `  <a href="${next.dest}" class="next">${next.nav} (rarr)</a>\n`; }
    else { html += '  <span></span>\n'; }
    html += '</footer>';
    return html;
  }
  \<close>
  \<open>null\<close> and \<open>undefined\<close> are both falsy and both \<open>None\<close> here; a page object is
  truthy.
\<close>

definition generatePageNav :: "page list \<Rightarrow> int \<Rightarrow> string" where
  \<open>generatePageNav pages currentIndex =
     (let prev = (if currentIndex > 0 then at pages (currentIndex - 1) else None);
          next = (if currentIndex < int (length pages) - 1
                  then at pages (currentIndex + 1) else None);
          html = ''<footer class="page-nav">\<newline>'';
          html = (case prev of
                    Some p \<Rightarrow> html @ ''  <a href="'' @ dest p @ ''" class="prev">'' @ larr @
                              '' '' @ nav p @ ''</a>\<newline>''
                  | None \<Rightarrow> html @ ''  <span></span>\<newline>'');
          html = (case next of
                    Some n \<Rightarrow> html @ ''  <a href="'' @ dest n @ ''" class="next">'' @ nav n @
                              '' '' @ rarr @ ''</a>\<newline>''
                  | None \<Rightarrow> html @ ''  <span></span>\<newline>'');
          html = html @ ''</footer>''
      in html)\<close>

section \<open>Headings and the table of contents\<close>

text \<open>
  \<^verbatim>\<open>
  function extractHeadings(tokens) {
    const headings = [];
    for (let i = 0; i < tokens.length; i++) {
      const token = tokens[i];
      if (token.type === 'heading_open') {
        const level = parseInt(token.tag.substring(1));
        const content = tokens[i + 1].content;
        const id = slugify(content);
        if (level >= 2 && level <= 3) {
          headings.push({ level, content, id });
        }
      }
    }
    return headings;
  }
  \<close>
  The loop is the function below, from index \<open>i\<close> with the headings pushed so far.
  \<open>tokens[i + 1]\<close> is \<open>undefined\<close> behind the last token, and reading its
  \<open>content\<close> throws. A comparison with \<open>NaN\<close> is false.
\<close>

function extractHeadings_loop :: "token list \<Rightarrow> nat \<Rightarrow> heading list \<Rightarrow> error + heading list" where
  "extractHeadings_loop tokens i headings =
     (if i < length tokens then
        (let token = tokens ! i
         in if type token = ''heading_open'' then
              (let level = parseInt (substring (tag token) 1)
               in if i + 1 < length tokens then
                    (let content = content (tokens ! (i + 1));
                         id = slugify content
                     in case level of
                          Some l \<Rightarrow>
                            if l \<ge> 2 \<and> l \<le> 3
                            then extractHeadings_loop tokens (i + 1)
                                   (headings @ [\<lparr>level = l, content' = content, id' = id\<rparr>])
                            else extractHeadings_loop tokens (i + 1) headings
                        | None \<Rightarrow> extractHeadings_loop tokens (i + 1) headings)
                  else Inl TypeError)
            else extractHeadings_loop tokens (i + 1) headings)
      else Inr headings)"
  by pat_completeness auto
termination
  by (relation "measure (\<lambda>(tokens, i, headings). length tokens - i)") auto

declare extractHeadings_loop.simps [simp del]

definition extractHeadings :: "token list \<Rightarrow> error + heading list" where
  "extractHeadings tokens = extractHeadings_loop tokens 0 []"

text \<open>
  \<^verbatim>\<open>
  function generateTOC(headings) {
    if (headings.length === 0) return '';
    let toc = '<nav class="toc">\n<h2>On This Page</h2>\n<ul>\n';
    headings.forEach(h => {
      const indent = h.level === 3 ? ' class="toc-sub"' : '';
      toc += `  <li${indent}><a href="#${h.id}">${h.content}</a></li>\n`;
    });
    toc += '</ul>\n</nav>';
    return toc;
  }
  \<close>
\<close>

definition generateTOC :: "heading list \<Rightarrow> string" where
  \<open>generateTOC headings =
     (if length headings = 0 then ''''
      else
        (let toc = ''<nav class="toc">\<newline><h2>On This Page</h2>\<newline><ul>\<newline>'';
             toc = foldl (\<lambda>toc h.
                      let indent = (if level h = 3 then '' class="toc-sub"'' else '''')
                      in toc @ ''  <li'' @ indent @ ''><a href="#'' @ id' h @ ''">'' @
                         content' h @ ''</a></li>\<newline>'') toc headings;
             toc = toc @ ''</ul>\<newline></nav>''
         in toc))\<close>

section \<open>Filling the template\<close>

text \<open>
  \<open>s.indexOf(pattern)\<close>: the first position at which \<open>pattern\<close> occurs in \<open>s\<close>.
\<close>

fun indexOf :: "string \<Rightarrow> string \<Rightarrow> nat option" where
  "indexOf [] pattern = (if pattern = [] then Some 0 else None)"
| "indexOf (c # cs) pattern =
     (if take (length pattern) (c # cs) = pattern then Some 0
      else map_option Suc (indexOf cs pattern))"

text \<open>
  The replacement text of \<open>String.prototype.replace\<close> is a template: \<open>$$\<close> stands for
  a dollar sign, \<open>$&\<close> for the matched text, \<open>$`\<close> for the text before the match and
  \<open>$'\<close> for the text behind it. With a string pattern there is no capture group, so
  every other dollar sign stands for itself.
\<close>

fun getSubstitution :: "string \<Rightarrow> string \<Rightarrow> string \<Rightarrow> string \<Rightarrow> string" where
  "getSubstitution matched preceding following [] = []"
| "getSubstitution matched preceding following [c] = [c]"
| "getSubstitution matched preceding following (c # d # r) =
     (if c = CHR ''$'' \<and> d = CHR ''$'' then
        CHR ''$'' # getSubstitution matched preceding following r
      else if c = CHR ''$'' \<and> d = CHR ''&'' then
        matched @ getSubstitution matched preceding following r
      else if c = CHR ''$'' \<and> d = CHR 0x60 then
        preceding @ getSubstitution matched preceding following r
      else if c = CHR ''$'' \<and> d = CHR 0x27 then
        following @ getSubstitution matched preceding following r
      else c # getSubstitution matched preceding following (d # r))"

text \<open>
  \<open>s.replace(pattern, replacement)\<close> with a string pattern: only the first occurrence
  is replaced, and a string without the pattern is returned as it is.
\<close>

definition replace :: "string \<Rightarrow> string \<Rightarrow> string \<Rightarrow> string" where
  "replace s pattern replacement =
     (case indexOf s pattern of
        None \<Rightarrow> s
      | Some pos \<Rightarrow>
          (let preceding = take pos s;
               following = drop (pos + length pattern) s
           in preceding @ getSubstitution pattern preceding following replacement @ following))"

text \<open>
  The six replacements of \<open>buildPage\<close>, in the order of the script:
  \<^verbatim>\<open>
  html = html.replace('{{TITLE}}', page.title);
  html = html.replace('{{NAV}}', generateNav(page.dest));
  html = html.replace('{{BREADCRUMB}}', generateBreadcrumb(page.title));
  html = html.replace('{{TOC}}', toc);
  html = html.replace('{{CONTENT}}', content);
  html = html.replace('{{PAGE_NAV}}', generatePageNav(index));
  \<close>
  with the six fragments as arguments.
\<close>

definition replacePlaceholders ::
  "string \<Rightarrow> string \<Rightarrow> string \<Rightarrow> string \<Rightarrow> string \<Rightarrow> string \<Rightarrow> string \<Rightarrow> string" where
  "replacePlaceholders html pageTitle navList breadcrumb toc body pageNav =
     (let html = replace html ''{{TITLE}}'' pageTitle;
          html = replace html ''{{NAV}}'' navList;
          html = replace html ''{{BREADCRUMB}}'' breadcrumb;
          html = replace html ''{{TOC}}'' toc;
          html = replace html ''{{CONTENT}}'' body;
          html = replace html ''{{PAGE_NAV}}'' pageNav
      in html)"

text \<open>
  \<open>buildPage\<close> without its file and console effects: the markdown parser's tokens, the
  rendered body (\<open>content\<close> in the script) and the template text are arguments, the page
  text is the result.
\<close>

definition buildPage ::
  "page list \<Rightarrow> string \<Rightarrow> page \<Rightarrow> int \<Rightarrow> token list \<Rightarrow> string \<Rightarrow> error + string" where
  "buildPage pages template page index tokens body =
     (case extractHeadings tokens of
        Inl e \<Rightarrow> Inl e
      | Inr headings \<Rightarrow>
          (let toc = generateTOC headings
           in Inr (replacePlaceholders template (title page)
                     (generateNav pages (dest page)) (generateBreadcrumb (title page))
                     toc body (generatePageNav pages index))))"

section \<open>The manifest\<close>

text \<open>
  The page definitions of the script. \<open>src\<close> is kept as the path below
  \<open>TINQER_REPO\<close>, whose absolute location depends on where the script is installed.
\<close>

definition pages :: "page list" where
  "pages =
     [\<lparr>src = ''README.md'', dest = ''index.html'',
        title = ''Getting Started'', nav = ''Getting Started''\<rparr>,
      \<lparr>src = ''docs/guide.md'', dest = ''guide.html'',
        title = ''Guide'', nav = ''Guide''\<rparr>,
      \<lparr>src = ''docs/api-reference.md'', dest = ''api-reference.html'',
        title = ''API Reference'', nav = ''API Reference''\<rparr>,
      \<lparr>src = ''docs/adapters.md'', dest = ''adapters.html'',
        title = ''Adapters'', nav = ''Adapters''\<rparr>,
      \<lparr>src = ''docs/development.md'', dest = ''development.html'',
        title = ''Development'', nav = ''Development''\<rparr>,
      \<lparr>src = ''ARCHITECTURE.md'', dest = ''architecture.html'',
        title = ''Architecture'', nav = ''Architecture''\<rparr>]"

section \<open>Notions used to state the properties\<close>

subsection \<open>The slug, step by step\<close>

text \<open>
  The slug as the specification words it: trim surrounding white space, lower-case,
  remove every period, replace each maximal run of white space by one hyphen,
  percent-encode. Every step is written here on its own, without the script's library
  calls and without the definitions above, to be compared with them.
\<close>

text \<open>
  White space, by code unit number: U+0009 to U+000D, U+0020 and U+00A0.
\<close>

definition whiteSpaceUnit :: "char \<Rightarrow> bool" where
  "whiteSpaceUnit c \<longleftrightarrow>
     (let n = (of_char c :: nat) in (9 \<le> n \<and> n \<le> 13) \<or> n = 32 \<or> n = 160)"

definition stripSurrounding :: "string \<Rightarrow> string" where
  "stripSurrounding s =
     (let a = length (takeWhile whiteSpaceUnit s);
          b = length (takeWhile whiteSpaceUnit (rev s))
      in take (length s - a - b) (drop a s))"

text \<open>
  Lower case, by the table of the letters that have a lower-case form: the 26 letters
  of ASCII and the 30 capital letters of the Latin-1 supplement.
\<close>

definition lowerCaseTable :: "(char \<times> char) list" where
  "lowerCaseTable =
     zip (''ABCDEFGHIJKLMNOPQRSTUVWXYZ'' @
          [CHR 0xC0, CHR 0xC1, CHR 0xC2, CHR 0xC3, CHR 0xC4, CHR 0xC5, CHR 0xC6, CHR 0xC7,
           CHR 0xC8, CHR 0xC9, CHR 0xCA, CHR 0xCB, CHR 0xCC, CHR 0xCD, CHR 0xCE, CHR 0xCF,
           CHR 0xD0, CHR 0xD1, CHR 0xD2, CHR 0xD3, CHR 0xD4, CHR 0xD5, CHR 0xD6,
           CHR 0xD8, CHR 0xD9, CHR 0xDA, CHR 0xDB, CHR 0xDC, CHR 0xDD, CHR 0xDE])
         (''abcdefghijklmnopqrstuvwxyz'' @
          [CHR 0xE0, CHR 0xE1, CHR 0xE2, CHR 0xE3, CHR 0xE4, CHR 0xE5, CHR 0xE6, CHR 0xE7,
           CHR 0xE8, CHR 0xE9, CHR 0xEA, CHR 0xEB, CHR 0xEC, CHR 0xED, CHR 0xEE, CHR 0xEF,
           CHR 0xF0, CHR 0xF1, CHR 0xF2, CHR 0xF3, CHR 0xF4, CHR 0xF5, CHR 0xF6,
           CHR 0xF8, CHR 0xF9, CHR 0xFA, CHR 0xFB, CHR 0xFC, CHR 0xFD, CHR 0xFE])"

definition lowerCaseUnit :: "char \<Rightarrow> char" where
  "lowerCaseUnit c = (case map_of lowerCaseTable c of Some l \<Rightarrow> l | None \<Rightarrow> c)"

definition lowerCase :: "string \<Rightarrow> string" where
  "lowerCase s = map lowerCaseUnit s"

definition removePeriods :: "string \<Rightarrow> string" where
  "removePeriods s = filter (\<lambda>c. c \<noteq> CHR ''.'') s"

text \<open>
  The maximal runs of a string: neighbouring code units are in the same run exactly if
  both are white space or both are not.
\<close>

fun whitespaceRuns :: "string \<Rightarrow> string list" where
  "whitespaceRuns [] = []"
| "whitespaceRuns (c # cs) =
     (case whitespaceRuns cs of
        [] \<Rightarrow> [[c]]
      | r # rs \<Rightarrow>
          if whiteSpaceUnit c = whiteSpaceUnit (hd r) then (c # r) # rs else [c] # r # rs)"

definition hyphenateRuns :: "string \<Rightarrow> string" where
  "hyphenateRuns s =
     concat (map (\<lambda>r. if whiteSpaceUnit (hd r) then ''-'' else r) (whitespaceRuns s))"

text \<open>
  Percent-encoding of a code unit below U+0100. The ASCII letters and digits and the
  nine marks \<open>- _ . ! ~ * ' ( )\<close> stand for themselves. Any other code unit below
  U+0080 is one escape, \<open>%\<close> and its number in two upper-case hexadecimal digits. A
  code unit from U+0080 on has two bytes in UTF-8: \<open>C2\<close> and its own number below
  U+00C0, \<open>C3\<close> and its number less 64 from there on.
\<close>

definition keptUnit :: "char \<Rightarrow> bool" where
  "keptUnit c \<longleftrightarrow>
     (let n = (of_char c :: nat)
      in (97 \<le> n \<and> n \<le> 122) \<or> (65 \<le> n \<and> n \<le> 90) \<or> (48 \<le> n \<and> n \<le> 57) \<or>
         n \<in> {45, 95, 46, 33, 126, 42, 39, 40, 41})"

definition hexUpper :: "nat \<Rightarrow> char" where
  "hexUpper d = (if d < 10 then char_of (48 + d) else char_of (55 + d))"

definition escapeByte :: "nat \<Rightarrow> string" where
  "escapeByte b = [CHR ''%'', hexUpper (b div 16), hexUpper (b mod 16)]"

definition percentEncodeUnit :: "char \<Rightarrow> string" where
  "percentEncodeUnit c =
     (let n = (of_char c :: nat)
      in if keptUnit c then [c]
         else if n < 128 then escapeByte n
         else if n < 192 then ''%C2'' @ escapeByte n
         else ''%C3'' @ escapeByte (n - 64))"

definition percentEncode :: "string \<Rightarrow> string" where
  "percentEncode s = concat (map percentEncodeUnit s)"

definition slugSpec :: "string \<Rightarrow> string" where
  "slugSpec s =
     percentEncode (hyphenateRuns (removePeriods (lowerCase (stripSurrounding s))))"

subsection \<open>Headings of a token sequence\<close>

text \<open>
  Every \<open>heading_open\<close> token is followed by at least one more token.
\<close>

definition headingOpenFollowed :: "token list \<Rightarrow> bool" where
  "headingOpenFollowed tokens \<longleftrightarrow>
     (\<forall>i \<in> {0..<length tokens}. type (tokens ! i) = ''heading_open'' \<longrightarrow> i + 1 < length tokens)"

text \<open>
  The heading a \<open>heading_open\<close> token \<open>t\<close> and the token \<open>n\<close> behind it stand for, if its
  level is 2 or 3.
\<close>

definition headingOf :: "token \<Rightarrow> token \<Rightarrow> heading option" where
  "headingOf t n =
     (if type t = ''heading_open'' then
        (case parseInt (substring (tag t) 1) of
           Some l \<Rightarrow>
             if l = 2 \<or> l = 3
             then Some \<lparr>level = l, content' = content n, id' = slugify (content n)\<rparr>
             else None
         | None \<Rightarrow> None)
      else None)"

text \<open>
  The level-2 and level-3 headings of a token sequence, in the order of the sequence.
\<close>

definition headingsInOrder :: "token list \<Rightarrow> heading list" where
  "headingsInOrder tokens = List.map_filter (\<lambda>(t, n). headingOf t n) (zip tokens (tl tokens))"

subsection \<open>Entries of the table of contents and slots of the pager\<close>

definition tocItem :: "bool \<Rightarrow> heading \<Rightarrow> string" where
  \<open>tocItem sub h =
     ''  <li'' @ (if sub then '' class="toc-sub"'' else '''') @ ''><a href="#'' @ id' h @
     ''">'' @ content' h @ ''</a></li>\<newline>''\<close>

definition emptySlot :: string where
  \<open>emptySlot = ''  <span></span>\<newline>''\<close>

definition prevLink :: "page \<Rightarrow> string" where
  \<open>prevLink p =
     ''  <a href="'' @ dest p @ ''" class="prev">'' @ larr @ '' '' @ nav p @ ''</a>\<newline>''\<close>

definition nextLink :: "page \<Rightarrow> string" where
  \<open>nextLink p =
     ''  <a href="'' @ dest p @ ''" class="next">'' @ nav p @ '' '' @ rarr @ ''</a>\<newline>''\<close>

definition pager :: "string \<Rightarrow> string \<Rightarrow> string" where
  \<open>pager prevSlot nextSlot =
     ''<footer class="page-nav">\<newline>'' @ prevSlot @ nextSlot @ ''</footer>''\<close>

subsection \<open>Steps of the template filling\<close>

definition replaceStep :: "string \<Rightarrow> string \<times> string \<Rightarrow> string" where
  "replaceStep html step = replace html (fst step) (snd step)"

definition placeholderSteps ::
  "string \<Rightarrow> string \<Rightarrow> string \<Rightarrow> string \<Rightarrow> string \<Rightarrow> string \<Rightarrow> (string \<times> string) list" where
  "placeholderSteps pageTitle navList breadcrumb toc body pageNav =
     [(''{{TITLE}}'', pageTitle), (''{{NAV}}'', navList), (''{{BREADCRUMB}}'', breadcrumb),
      (''{{TOC}}'', toc), (''{{CONTENT}}'', body), (''{{PAGE_NAV}}'', pageNav)]"

subsection \<open>A sample document\<close>

text \<open>
  The three tokens the markdown parser gives for a heading, and a document with
  headings of the levels 1, 2, 3, 4, 2.
\<close>

definition headingTokens :: "string \<Rightarrow> string \<Rightarrow> token list" where
  "headingTokens htag text =
     [\<lparr>type = ''heading_open'', tag = htag, content = ''''\<rparr>,
      \<lparr>type = ''inline'', tag = '''', content = text\<rparr>,
      \<lparr>type = ''heading_close'', tag = htag, content = ''''\<rparr>]"

definition sampleTokens :: "token list" where
  "sampleTokens =
     headingTokens ''h1'' ''Tinqer'' @ headingTokens ''h2'' ''Getting Started'' @
     headingTokens ''h3'' ''Install'' @ headingTokens ''h4'' ''Node.js'' @
     headingTokens ''h2'' ''Q&A''"

section \<open>Auxiliary facts\<close>

lemma foldl_append_concat:
  "foldl (\<lambda>acc x. acc @ f x) acc xs = acc @ concat (map f xs)"
  by (induction xs arbitrary: acc) simp_all

subsection \<open>The loop of the heading extractor\<close>

lemma headingOpenFollowed_last:
  "headingOpenFollowed tokens \<longleftrightarrow> tokens = [] \<or> type (last tokens) \<noteq> ''heading_open''"
proof (cases "tokens = []")
  case True
  then show ?thesis by (simp add: headingOpenFollowed_def)
next
  case False
  then have len: "length tokens - 1 < length tokens" by simp
  have l: "last tokens = tokens ! (length tokens - 1)"
    using False by (simp add: last_conv_nth)
  show ?thesis
  proof
    assume h: "headingOpenFollowed tokens"
    have "type (tokens ! (length tokens - 1)) \<noteq> ''heading_open''"
    proof
      assume "type (tokens ! (length tokens - 1)) = ''heading_open''"
      with h len have "length tokens - 1 + 1 < length tokens"
        unfolding headingOpenFollowed_def by (metis atLeastLessThan_iff le0)
      then show False by simp
    qed
    with l show "tokens = [] \<or> type (last tokens) \<noteq> ''heading_open''" by simp
  next
    assume "tokens = [] \<or> type (last tokens) \<noteq> ''heading_open''"
    with False l have nl: "type (tokens ! (length tokens - 1)) \<noteq> ''heading_open''" by simp
    show "headingOpenFollowed tokens"
      unfolding headingOpenFollowed_def
    proof (intro ballI impI)
      fix i assume i: "i \<in> {0..<length tokens}" and t: "type (tokens ! i) = ''heading_open''"
      from t nl have "i \<noteq> length tokens - 1" by auto
      with i show "i + 1 < length tokens" by auto
    qed
  qed
qed

lemma headingsInOrder_Nil: "headingsInOrder [] = []"
  by (simp add: headingsInOrder_def List.map_filter_simps)

lemma headingsInOrder_Cons:
  "headingsInOrder (t # rest) =
     (case rest of [] \<Rightarrow> [] | n # r \<Rightarrow> (case headingOf t n of None \<Rightarrow> [] | Some h \<Rightarrow> [h])) @
     headingsInOrder rest"
  by (cases rest) (simp_all add: headingsInOrder_def List.map_filter_simps split: option.splits)

lemma headingOf_not_open: "type t \<noteq> ''heading_open'' \<Longrightarrow> headingOf t n = None"
  by (simp add: headingOf_def)

lemma loop_end:
  "\<not> i < length tokens \<Longrightarrow> extractHeadings_loop tokens i acc = Inr acc"
  by (subst extractHeadings_loop.simps) simp

lemma loop_other:
  "i < length tokens \<Longrightarrow> type (tokens ! i) \<noteq> ''heading_open'' \<Longrightarrow>
   extractHeadings_loop tokens i acc = extractHeadings_loop tokens (Suc i) acc"
  by (subst extractHeadings_loop.simps) simp

lemma loop_open_last:
  "i < length tokens \<Longrightarrow> type (tokens ! i) = ''heading_open'' \<Longrightarrow> \<not> Suc i < length tokens \<Longrightarrow>
   extractHeadings_loop tokens i acc = Inl TypeError"
  by (subst extractHeadings_loop.simps) simp

lemma level_range: "(2 \<le> l \<and> l \<le> 3) = (l = 2 \<or> l = (3::int))"
  by auto

lemma loop_open:
  assumes "i < length tokens" and "type (tokens ! i) = ''heading_open''"
    and "Suc i < length tokens"
  shows "extractHeadings_loop tokens i acc =
     extractHeadings_loop tokens (Suc i)
       (acc @ (case headingOf (tokens ! i) (tokens ! Suc i) of None \<Rightarrow> [] | Some h \<Rightarrow> [h]))"
proof (cases "parseInt (substring (tag (tokens ! i)) 1)")
  case None
  with assms show ?thesis
    by (subst extractHeadings_loop.simps) (simp add: headingOf_def)
next
  case (Some l)
  show ?thesis
  proof (cases "l = 2 \<or> l = 3")
    case True
    with assms Some show ?thesis
      by (subst extractHeadings_loop.simps) (simp add: headingOf_def level_range Let_def)
  next
    case False
    with assms Some show ?thesis
      by (subst extractHeadings_loop.simps) (simp add: headingOf_def level_range)
  qed
qed

lemma extractHeadings_loop_followed:
  "headingOpenFollowed tokens \<Longrightarrow>
   extractHeadings_loop tokens i acc = Inr (acc @ headingsInOrder (drop i tokens))"
proof (induction "length tokens - i" arbitrary: i acc)
  case 0
  then show ?case by (simp add: loop_end headingsInOrder_Nil)
next
  case (Suc n)
  then have lt: "i < length tokens" and n: "n = length tokens - Suc i" by simp_all
  note ih = Suc.hyps(1) [OF n Suc.prems]
  have d: "drop i tokens = tokens ! i # drop (Suc i) tokens"
    using lt by (simp add: Cons_nth_drop_Suc)
  show ?case
  proof (cases "type (tokens ! i) = ''heading_open''")
    case False
    have "headingsInOrder (drop i tokens) = headingsInOrder (drop (Suc i) tokens)"
      by (simp add: d headingsInOrder_Cons headingOf_not_open [OF False] split: list.splits)
    with lt False show ?thesis
      by (simp add: loop_other ih)
  next
    case True
    with lt Suc.prems have nxt: "Suc i < length tokens"
      by (simp add: headingOpenFollowed_def)
    then obtain r where d': "drop (Suc i) tokens = tokens ! Suc i # r"
      by (metis Cons_nth_drop_Suc)
    have "headingsInOrder (drop i tokens) =
            (case headingOf (tokens ! i) (tokens ! Suc i) of None \<Rightarrow> [] | Some h \<Rightarrow> [h]) @
            headingsInOrder (drop (Suc i) tokens)"
      by (simp add: d headingsInOrder_Cons [of "tokens ! i"] d')
    then show ?thesis
      by (simp add: loop_open [OF lt True nxt] ih)
  qed
qed

lemma extractHeadings_loop_last_open:
  "tokens \<noteq> [] \<Longrightarrow> type (last tokens) = ''heading_open'' \<Longrightarrow> i < length tokens \<Longrightarrow>
   extractHeadings_loop tokens i acc = Inl TypeError"
proof (induction "length tokens - i" arbitrary: i acc)
  case 0
  then show ?case by simp
next
  case (Suc n)
  then have lt: "i < length tokens" and n: "n = length tokens - Suc i" by simp_all
  show ?case
  proof (cases "Suc i < length tokens")
    case False
    with lt have "i = length tokens - 1" by simp
    with Suc.prems have "type (tokens ! i) = ''heading_open''"
      by (simp add: last_conv_nth)
    with lt False show ?thesis by (simp add: loop_open_last)
  next
    case True
    note ih = Suc.hyps(1) [OF n Suc.prems(1) Suc.prems(2) True]
    show ?thesis
    proof (cases "type (tokens ! i) = ''heading_open''")
      case False
      with lt show ?thesis by (simp add: loop_other ih)
    next
      case opn: True
      show ?thesis by (simp add: loop_open [OF lt opn True] ih)
    qed
  qed
qed

lemma extractHeadings_followed:
  "headingOpenFollowed tokens \<Longrightarrow> extractHeadings tokens = Inr (headingsInOrder tokens)"
  by (simp add: extractHeadings_def extractHeadings_loop_followed)

lemma extractHeadings_not_followed:
  "\<not> headingOpenFollowed tokens \<Longrightarrow> extractHeadings tokens = Inl TypeError"
  by (simp add: extractHeadings_def headingOpenFollowed_last extractHeadings_loop_last_open)

lemma headingsInOrder_levels:
  "h \<in> set (headingsInOrder tokens) \<Longrightarrow> level h = 2 \<or> level h = 3"
  by (auto simp: headingsInOrder_def List.map_filter_def headingOf_def
           split: if_splits option.splits)

subsection \<open>Link targets of the table of contents\<close>

text \<open>
  The id of every extracted heading is the slug of the heading's text, and the entry of
  the heading in the table of contents links to that slug. The \<open>id\<close> attribute of the
  rendered heading is set by the \<open>markdown-it-anchor\<close> plugin, which the script
  configures with \<open>slugify\<close>; the plugin is a dependency and not part of the script.
\<close>

lemma headingsInOrder_id:
  "h \<in> set (headingsInOrder tokens) \<Longrightarrow> id' h = slugify (content' h)"
  by (auto simp: headingsInOrder_def List.map_filter_def headingOf_def
           split: if_splits option.splits)

lemma extractHeadings_link_target:
  assumes "extractHeadings tokens = Inr headings" and "h \<in> set headings"
  shows \<open>id' h = slugify (content' h) \<and>
         tocItem (level h = 3) h =
           ''  <li'' @ (if level h = 3 then '' class="toc-sub"'' else '''') @ ''><a href="#'' @
           slugify (content' h) @ ''">'' @ content' h @ ''</a></li>\<newline>''\<close>
proof -
  have "headingOpenFollowed tokens"
  proof (rule ccontr)
    assume "\<not> headingOpenFollowed tokens"
    then have "extractHeadings tokens = Inl TypeError"
      by (rule extractHeadings_not_followed)
    with assms(1) show False by simp
  qed
  then have "extractHeadings tokens = Inr (headingsInOrder tokens)"
    by (rule extractHeadings_followed)
  with assms have "h \<in> set (headingsInOrder tokens)" by simp
  then have "id' h = slugify (content' h)" by (rule headingsInOrder_id)
  then show ?thesis by (simp add: tocItem_def)
qed

subsection \<open>The steps of the slug\<close>

text \<open>
  On each of the 256 code units the library functions of the script and the steps
  written on their own agree.
\<close>

lemma whiteSpace_units: "list_all (\<lambda>c. isWhiteSpace c = whiteSpaceUnit c) Enum.enum"
  by code_simp

lemma lowerCase_units: "list_all (\<lambda>c. toLowerUnit c = lowerCaseUnit c) Enum.enum"
  by code_simp

lemma percentEncode_units: "list_all (\<lambda>c. encodeUnit c = percentEncodeUnit c) Enum.enum"
  by code_simp

lemma kept_units: "list_all (\<lambda>c. uriUnreserved c = keptUnit c) Enum.enum"
  by code_simp

lemma whiteSpaceUnit_eq [simp]: "whiteSpaceUnit = isWhiteSpace"
proof
  fix c
  show "whiteSpaceUnit c = isWhiteSpace c"
    using whiteSpace_units in_enum [of c] unfolding list_all_iff by blast
qed

lemma toLowerCase_lowerCase: "toLowerCase s = lowerCase s"
proof -
  have "toLowerUnit c = lowerCaseUnit c" for c
    using lowerCase_units in_enum [of c] unfolding list_all_iff by blast
  then have "toLowerUnit = lowerCaseUnit" by (rule ext)
  then show ?thesis by (simp add: toLowerCase_def lowerCase_def)
qed

lemma encodeURIComponent_percentEncode: "encodeURIComponent s = percentEncode s"
proof -
  have "encodeUnit c = percentEncodeUnit c" for c
    using percentEncode_units in_enum [of c] unfolding list_all_iff by blast
  then have "encodeUnit = percentEncodeUnit" by (rule ext)
  then show ?thesis by (simp add: encodeURIComponent_def percentEncode_def)
qed

lemma uriUnreserved_kept: "uriUnreserved c = keptUnit c"
  using kept_units in_enum [of c] unfolding list_all_iff by blast

lemma rev_dropWhile_rev:
  "rev (dropWhile P (rev t)) = take (length t - length (takeWhile P (rev t))) t"
  by (simp add: dropWhile_eq_drop rev_drop)

lemma trim_stripSurrounding: "trim s = stripSurrounding s"
proof -
  define a where "a = length (takeWhile isWhiteSpace s)"
  define t where "t = drop a s"
  have t: "dropWhile isWhiteSpace s = t"
    by (simp add: t_def a_def dropWhile_eq_drop)
  have tr: "trim s = take (length t - length (takeWhile isWhiteSpace (rev t))) t"
    unfolding trim_def trimEnd_def trimStart_def t by (rule rev_dropWhile_rev)
  have len: "length t = length s - a" by (simp add: t_def)
  show ?thesis
  proof (cases "t = []")
    case True
    then show ?thesis
      by (simp add: tr stripSurrounding_def Let_def a_def [symmetric] t_def [symmetric])
  next
    case False
    then have "\<not> isWhiteSpace (hd t)"
      unfolding t [symmetric] by (rule hd_dropWhile)
    moreover have "hd t \<in> set (rev t)" using False by simp
    moreover have "rev s = rev t @ rev (take a s)"
      by (simp add: t_def flip: rev_append)
    ultimately have "takeWhile isWhiteSpace (rev s) = takeWhile isWhiteSpace (rev t)"
      by (simp add: takeWhile_append1)
    then show ?thesis
      by (simp add: tr len stripSurrounding_def Let_def a_def [symmetric] t_def [symmetric])
  qed
qed

lemma replace_period_removePeriods: "replace_period s = removePeriods s"
  by (induction s) (simp_all add: removePeriods_def)

lemma whitespaceRuns_Cons: "\<exists>r rs. whitespaceRuns (d # ds) = (d # r) # rs"
  by (cases "whitespaceRuns ds") simp_all

lemma hyphenateRuns_Nil: "hyphenateRuns [] = []"
  by (simp add: hyphenateRuns_def)

lemma hyphenateRuns_other:
  "\<not> isWhiteSpace c \<Longrightarrow> hyphenateRuns (c # cs) = c # hyphenateRuns cs"
  by (cases "whitespaceRuns cs") (simp_all add: hyphenateRuns_def)

lemma hyphenateRuns_space:
  "isWhiteSpace c \<Longrightarrow> hyphenateRuns (c # cs) = CHR ''-'' # hyphenateRuns (dropWhile isWhiteSpace cs)"
proof (induction cs arbitrary: c)
  case Nil
  then show ?case by (simp add: hyphenateRuns_def)
next
  case (Cons d ds)
  obtain r rs where w: "whitespaceRuns (d # ds) = (d # r) # rs"
    using whitespaceRuns_Cons by blast
  show ?case
  proof (cases "isWhiteSpace d")
    case True
    have "hyphenateRuns (c # d # ds) = hyphenateRuns (d # ds)"
      using Cons.prems True w by (simp add: hyphenateRuns_def)
    with True Cons.IH [OF True] show ?thesis by simp
  next
    case False
    have "hyphenateRuns (c # d # ds) = CHR ''-'' # hyphenateRuns (d # ds)"
      using Cons.prems False w by (simp add: hyphenateRuns_def)
    with False show ?thesis by simp
  qed
qed

lemma replace_spaces_hyphenateRuns: "replace_spaces s = hyphenateRuns s"
  by (induction s rule: replace_spaces.induct)
     (simp_all add: hyphenateRuns_Nil hyphenateRuns_other hyphenateRuns_space)

text \<open>
  The runs are what their name says: together they are the string, each is uniform and
  not empty, and neighbouring runs differ in kind.
\<close>

lemma concat_whitespaceRuns: "concat (whitespaceRuns s) = s"
proof (induction s)
  case Nil
  then show ?case by simp
next
  case (Cons c cs)
  then show ?case by (cases "whitespaceRuns cs") auto
qed

lemma whitespaceRuns_step:
  "whitespaceRuns (c # cs) = [[c]] \<and> whitespaceRuns cs = [] \<or>
   (\<exists>q qs. whitespaceRuns cs = q # qs \<and> isWhiteSpace c = isWhiteSpace (hd q) \<and>
      whitespaceRuns (c # cs) = (c # q) # qs) \<or>
   (\<exists>q qs. whitespaceRuns cs = q # qs \<and> isWhiteSpace c \<noteq> isWhiteSpace (hd q) \<and>
      whitespaceRuns (c # cs) = [c] # q # qs)"
  by (cases "whitespaceRuns cs") simp_all

lemma whitespaceRuns_uniform:
  "r \<in> set (whitespaceRuns s) \<Longrightarrow> r \<noteq> [] \<and> (\<forall>c \<in> set r. isWhiteSpace c = isWhiteSpace (hd r))"
proof (induction s arbitrary: r)
  case Nil
  then show ?case by simp
next
  case (Cons c cs)
  from whitespaceRuns_step [of c cs]
  consider (single) "whitespaceRuns (c # cs) = [[c]]"
    | (joined) q qs where "whitespaceRuns cs = q # qs" "isWhiteSpace c = isWhiteSpace (hd q)"
        "whitespaceRuns (c # cs) = (c # q) # qs"
    | (apart) q qs where "whitespaceRuns cs = q # qs" "whitespaceRuns (c # cs) = [c] # q # qs"
    by blast
  then show ?case
  proof cases
    case single
    with Cons.prems have "r = [c]" by simp
    then show ?thesis by simp
  next
    case joined
    have "q \<in> set (whitespaceRuns cs)" unfolding joined(1) by simp
    then have q: "q \<noteq> [] \<and> (\<forall>x \<in> set q. isWhiteSpace x = isWhiteSpace (hd q))"
      by (rule Cons.IH)
    from Cons.prems joined(3) have "r = c # q \<or> r \<in> set qs" by simp
    then show ?thesis
    proof
      assume r: "r = c # q"
      have "isWhiteSpace x = isWhiteSpace c" if "x \<in> set (c # q)" for x
      proof (cases "x = c")
        case True
        then show ?thesis by (rule arg_cong)
      next
        case False
        with that have "x \<in> set q" by simp
        with q have "isWhiteSpace x = isWhiteSpace (hd q)" by blast
        with joined(2) show ?thesis by (simp only:)
      qed
      then have "\<forall>x \<in> set (c # q). isWhiteSpace x = isWhiteSpace (hd (c # q))"
        unfolding list.sel by blast
      then show ?thesis unfolding r by blast
    next
      assume "r \<in> set qs"
      with joined(1) have "r \<in> set (whitespaceRuns cs)" by simp
      then show ?thesis by (rule Cons.IH)
    qed
  next
    case apart
    from Cons.prems apart(2) have "r = [c] \<or> r \<in> set (q # qs)" by simp
    then show ?thesis
    proof
      assume "r = [c]"
      then show ?thesis by simp
    next
      assume "r \<in> set (q # qs)"
      with apart(1) have "r \<in> set (whitespaceRuns cs)" by simp
      then show ?thesis by (rule Cons.IH)
    qed
  qed
qed

lemma whitespaceRuns_alternate:
  "distinct_adj (map (\<lambda>r. isWhiteSpace (hd r)) (whitespaceRuns s))"
proof (induction s)
  case Nil
  then show ?case by simp
next
  case (Cons c cs)
  from whitespaceRuns_step [of c cs]
  consider (single) "whitespaceRuns (c # cs) = [[c]]"
    | (joined) q qs where "whitespaceRuns cs = q # qs" "isWhiteSpace c = isWhiteSpace (hd q)"
        "whitespaceRuns (c # cs) = (c # q) # qs"
    | (apart) q qs where "whitespaceRuns cs = q # qs" "isWhiteSpace c \<noteq> isWhiteSpace (hd q)"
        "whitespaceRuns (c # cs) = [c] # q # qs"
    by blast
  then show ?case
  proof cases
    case single
    then show ?thesis by simp
  next
    case joined
    from Cons.IH joined(1)
    have "distinct_adj (isWhiteSpace (hd q) # map (\<lambda>r. isWhiteSpace (hd r)) qs)" by simp
    then show ?thesis unfolding joined(3) using joined(2) by simp
  next
    case apart
    from Cons.IH apart(1)
    have "distinct_adj (isWhiteSpace (hd q) # map (\<lambda>r. isWhiteSpace (hd r)) qs)" by simp
    then show ?thesis unfolding apart(3) using apart(2) by simp
  qed
qed

subsection \<open>Code units and the slug\<close>

lemma char_eq_code: "c = d \<longleftrightarrow> (of_char c :: nat) = of_char d"
  by simp

lemma isWhiteSpace_code:
  "isWhiteSpace c \<longleftrightarrow> (of_char c :: nat) \<in> {9, 10, 11, 12, 13, 32, 160}"
  unfolding isWhiteSpace_def set_simps insert_iff empty_iff
  by (simp only: char_eq_code [of c]) simp

lemma of_char_toLowerUnit:
  "(of_char (toLowerUnit c) :: nat) =
     (let n = of_char c
      in if (65 \<le> n \<and> n \<le> 90) \<or> (192 \<le> n \<and> n \<le> 222 \<and> n \<noteq> 215) then n + 32 else n)"
  by (simp add: toLowerUnit_def Let_def)

lemma toLowerUnit_not_space: "\<not> isWhiteSpace c \<Longrightarrow> \<not> isWhiteSpace (toLowerUnit c)"
  by (simp add: isWhiteSpace_code of_char_toLowerUnit Let_def)

lemma toLowerUnit_period: "toLowerUnit c = CHR ''.'' \<longleftrightarrow> c = CHR ''.''"
  by (simp add: char_eq_code [of _ "CHR ''.''"] of_char_toLowerUnit Let_def)

lemma toLowerUnit_idem: "toLowerUnit (toLowerUnit c) = toLowerUnit c"
  by (simp add: char_eq_code [of "toLowerUnit (toLowerUnit c)"] of_char_toLowerUnit Let_def)

lemma unreserved_not_space: "uriUnreserved c \<Longrightarrow> \<not> isWhiteSpace c"
  by (auto simp: uriUnreserved_def isWhiteSpace_def)

lemma percent_reserved: "\<not> uriUnreserved (CHR ''%'')"
  by (simp add: uriUnreserved_def)

lemma hexDigits_unreserved:
  "list_all (\<lambda>k. uriUnreserved (hexDigit k) \<and> hexDigit k \<noteq> CHR ''.'') [0..<16]"
  by code_simp

lemma hexDigit_unreserved: "k < 16 \<Longrightarrow> uriUnreserved (hexDigit k) \<and> hexDigit k \<noteq> CHR ''.''"
  using hexDigits_unreserved by (simp add: list_all_iff)

lemma set_replace_period: "set (replace_period s) = set s - {CHR ''.''}"
  by (auto simp: replace_period_removePeriods removePeriods_def)

lemma set_replace_spaces:
  "set (replace_spaces s) \<subseteq> insert (CHR ''-'') {c \<in> set s. \<not> isWhiteSpace c}"
proof (induction s rule: replace_spaces.induct)
  case 1
  then show ?case by simp
next
  case (2 c cs)
  show ?case
  proof (cases "isWhiteSpace c")
    case True
    have "set (dropWhile isWhiteSpace cs) \<subseteq> set cs"
      by (auto dest: set_dropWhileD)
    with True "2.IH"(1) [OF True] show ?thesis by auto
  next
    case False
    with "2.IH"(2) [OF False] show ?thesis by auto
  qed
qed

lemma replace_spaces_id: "\<forall>c \<in> set t. \<not> isWhiteSpace c \<Longrightarrow> replace_spaces t = t"
  by (induction t) simp_all

lemma replace_period_id: "\<forall>c \<in> set t. c \<noteq> CHR ''.'' \<Longrightarrow> replace_period t = t"
  by (induction t) simp_all

lemma trim_id: "\<forall>c \<in> set t. \<not> isWhiteSpace c \<Longrightarrow> trim t = t"
proof -
  assume a: "\<forall>c \<in> set t. \<not> isWhiteSpace c"
  then have "dropWhile isWhiteSpace t = t"
    by (cases t) simp_all
  moreover from a have "dropWhile isWhiteSpace (rev t) = rev t"
    by (cases "rev t") (simp, metis dropWhile.simps(2) list.set_intros(1) set_rev)
  ultimately show ?thesis
    by (simp add: trim_def trimEnd_def trimStart_def)
qed

lemma encodeURIComponent_id:
  "\<forall>c \<in> set t. uriUnreserved c \<Longrightarrow> encodeURIComponent t = t"
  by (induction t) (simp_all add: encodeURIComponent_def encodeUnit_def)

lemma encodeUnit_reserved:
  "\<not> uriUnreserved c \<Longrightarrow>
   CHR ''%'' \<in> set (encodeUnit c) \<and> 1 < length (encodeUnit c)"
  by (simp add: encodeUnit_def utf8_def percentByte_def)

lemma set_encodeUnit:
  "set (encodeUnit c) \<subseteq> (if uriUnreserved c then {c} else {}) \<union> insert (CHR ''%'') (hexDigit ` {..<16})"
proof -
  have "(of_char c :: nat) < 256" by simp
  then have "of_char c div 16 < (16::nat)" "(192 + of_char c div 64) div 16 < (16::nat)"
    "(128 + of_char c mod 64) div 16 < (16::nat)"
    by linarith+
  then show ?thesis
    by (auto simp: encodeUnit_def utf8_def percentByte_def)
qed

lemma normalised_chars:
  assumes "c \<in> set (replace_spaces (replace_period (toLowerCase u)))"
  shows "\<not> isWhiteSpace c \<and> c \<noteq> CHR ''.'' \<and> toLowerUnit c = c"
proof -
  from assms set_replace_spaces
  have "c = CHR ''-'' \<or> (c \<in> set (replace_period (toLowerCase u)) \<and> \<not> isWhiteSpace c)"
    by blast
  then show ?thesis
  proof
    assume "c = CHR ''-''"
    then show ?thesis by (simp add: isWhiteSpace_def toLowerUnit_def)
  next
    assume a: "c \<in> set (replace_period (toLowerCase u)) \<and> \<not> isWhiteSpace c"
    then have "c \<in> toLowerUnit ` set u" and "c \<noteq> CHR ''.''"
      by (simp_all add: set_replace_period toLowerCase_def)
    with a show ?thesis by (auto simp: toLowerUnit_idem)
  qed
qed

lemma normalise_id:
  assumes "\<forall>c \<in> set t. \<not> isWhiteSpace c \<and> c \<noteq> CHR ''.'' \<and> toLowerUnit c = c"
  shows "replace_spaces (replace_period (toLowerCase (trim t))) = t"
proof -
  from assms have "trim t = t" by (simp add: trim_id)
  moreover from assms have "toLowerCase t = t" by (simp add: toLowerCase_def map_idI)
  moreover from assms have "replace_period t = t" by (simp add: replace_period_id)
  moreover from assms have "replace_spaces t = t" by (simp add: replace_spaces_id)
  ultimately show ?thesis by simp
qed

lemma set_encodeURIComponent:
  "set (encodeURIComponent t) \<subseteq>
     {c \<in> set t. uriUnreserved c} \<union> insert (CHR ''%'') (hexDigit ` {..<16})"
proof
  fix x assume "x \<in> set (encodeURIComponent t)"
  then obtain c where c: "c \<in> set t" and x: "x \<in> set (encodeUnit c)"
    by (auto simp: encodeURIComponent_def)
  from x set_encodeUnit [of c]
  have "x \<in> (if uriUnreserved c then {c} else {}) \<union> insert (CHR ''%'') (hexDigit ` {..<16})"
    by blast
  with c show "x \<in> {c \<in> set t. uriUnreserved c} \<union> insert (CHR ''%'') (hexDigit ` {..<16})"
    by (auto split: if_splits)
qed

lemma percent_in_encodeURIComponent:
  "CHR ''%'' \<in> set (encodeURIComponent t) \<longleftrightarrow> (\<exists>c \<in> set t. \<not> uriUnreserved c)"
proof
  assume p: "CHR ''%'' \<in> set (encodeURIComponent t)"
  show "\<exists>c \<in> set t. \<not> uriUnreserved c"
  proof (rule ccontr)
    assume "\<not> (\<exists>c \<in> set t. \<not> uriUnreserved c)"
    then have all: "\<forall>c \<in> set t. uriUnreserved c" by blast
    then have "encodeURIComponent t = t" by (rule encodeURIComponent_id)
    with p all have "uriUnreserved (CHR ''%'')" by simp
    with percent_reserved show False by contradiction
  qed
next
  assume "\<exists>c \<in> set t. \<not> uriUnreserved c"
  then obtain c where "c \<in> set t" "\<not> uriUnreserved c" by blast
  with encodeUnit_reserved [of c] show "CHR ''%'' \<in> set (encodeURIComponent t)"
    by (auto simp: encodeURIComponent_def)
qed

lemma length_encodeUnit: "1 \<le> length (encodeUnit c)"
  by (simp add: encodeUnit_def utf8_def percentByte_def)

lemma length_encodeURIComponent: "length t \<le> length (encodeURIComponent t)"
proof (induction t)
  case Nil
  then show ?case by (simp add: encodeURIComponent_def)
next
  case (Cons c t)
  with length_encodeUnit [of c] show ?case by (simp add: encodeURIComponent_def)
qed

lemma length_encodeURIComponent_reserved:
  "\<exists>c \<in> set t. \<not> uriUnreserved c \<Longrightarrow> length t < length (encodeURIComponent t)"
proof (induction t)
  case Nil
  then show ?case by simp
next
  case (Cons c t)
  have enc: "encodeURIComponent (c # t) = encodeUnit c @ encodeURIComponent t"
    by (simp add: encodeURIComponent_def)
  show ?case
  proof (cases "uriUnreserved c")
    case True
    with Cons.prems have "\<exists>c \<in> set t. \<not> uriUnreserved c" by simp
    from Cons.IH [OF this] length_encodeUnit [of c] show ?thesis by (simp add: enc)
  next
    case False
    with encodeUnit_reserved [of c] length_encodeURIComponent [of t]
    show ?thesis by (simp add: enc)
  qed
qed

subsection \<open>Replacing the first occurrence\<close>

lemma indexOf_Some:
  "indexOf s pat = Some k \<Longrightarrow>
   take (length pat) (drop k s) = pat \<and> k + length pat \<le> length s \<and>
   (\<forall>j<k. take (length pat) (drop j s) \<noteq> pat)"
proof (induction s arbitrary: k)
  case Nil
  then show ?case by (simp split: if_splits)
next
  case (Cons c cs)
  show ?case
  proof (cases "take (length pat) (c # cs) = pat")
    case True
    with Cons.prems have k: "k = 0" by simp
    have "length (take (length pat) (c # cs)) \<le> length (c # cs)"
      by (simp only: length_take min.cobounded2)
    then have "length pat \<le> length (c # cs)"
      by (simp only: True)
    with True k show ?thesis by simp
  next
    case False
    with Cons.prems obtain k' where k: "k = Suc k'" and i: "indexOf cs pat = Some k'"
      by auto
    from Cons.IH [OF i] have ih: "take (length pat) (drop k' cs) = pat"
      "k' + length pat \<le> length cs" "\<forall>j<k'. take (length pat) (drop j cs) \<noteq> pat"
      by simp_all
    have "take (length pat) (drop j (c # cs)) \<noteq> pat" if "j < k" for j
    proof (cases j)
      case 0
      with False show ?thesis by simp
    next
      case (Suc j')
      with that k ih(3) show ?thesis by simp
    qed
    with ih k show ?thesis by simp
  qed
qed

lemma indexOf_None:
  "indexOf s pat = None \<longleftrightarrow> \<not> (\<exists>pre post. s = pre @ pat @ post)"
proof (induction s)
  case Nil
  then show ?case by simp
next
  case (Cons c cs)
  show ?case
  proof (cases "take (length pat) (c # cs) = pat")
    case True
    then have "c # cs = [] @ pat @ drop (length pat) (c # cs)"
      by (metis append_Nil append_take_drop_id)
    then have "\<exists>pre post. c # cs = pre @ pat @ post" by blast
    with True show ?thesis by simp
  next
    case False
    have "(\<exists>pre post. c # cs = pre @ pat @ post) \<longleftrightarrow> (\<exists>pre post. cs = pre @ pat @ post)"
    proof
      assume "\<exists>pre post. c # cs = pre @ pat @ post"
      then obtain pre post where e: "c # cs = pre @ pat @ post" by blast
      show "\<exists>pre post. cs = pre @ pat @ post"
      proof (cases pre)
        case Nil
        with e have "take (length pat) (c # cs) = pat" by simp
        with False show ?thesis by contradiction
      next
        case (Cons p pre')
        with e have "cs = pre' @ pat @ post" by simp
        then show ?thesis by blast
      qed
    next
      assume "\<exists>pre post. cs = pre @ pat @ post"
      then obtain pre post where "cs = pre @ pat @ post" by blast
      then have "c # cs = (c # pre) @ pat @ post" by simp
      then show "\<exists>pre post. c # cs = pre @ pat @ post" by blast
    qed
    with False Cons.IH show ?thesis by simp
  qed
qed

lemma replace_absent: "indexOf s pat = None \<Longrightarrow> replace s pat rep = s"
  by (simp add: replace_def)

lemma replace_first:
  assumes "indexOf s pat = Some k"
  shows "s = take k s @ pat @ drop (k + length pat) s"
    and "replace s pat rep =
           take k s @ getSubstitution pat (take k s) (drop (k + length pat) s) rep @
           drop (k + length pat) s"
proof -
  from indexOf_Some [OF assms] have "take (length pat) (drop k s) = pat" by simp
  then have "drop k s = pat @ drop (length pat) (drop k s)"
    by (metis append_take_drop_id)
  then have "take k s @ drop k s = take k s @ pat @ drop (k + length pat) s"
    by (simp add: add.commute)
  then show "s = take k s @ pat @ drop (k + length pat) s" by simp
  show "replace s pat rep =
           take k s @ getSubstitution pat (take k s) (drop (k + length pat) s) rep @
           drop (k + length pat) s"
    using assms by (simp add: replace_def Let_def)
qed

lemma replacePlaceholders_foldl:
  "replacePlaceholders html pageTitle navList breadcrumb toc body pageNav =
     foldl replaceStep html (placeholderSteps pageTitle navList breadcrumb toc body pageNav)"
  by (simp add: replacePlaceholders_def placeholderSteps_def replaceStep_def Let_def)

lemma foldl_replaceStep_skip:
  assumes "k < length steps"
    and "indexOf (foldl replaceStep html (take k steps)) (fst (steps ! k)) = None"
  shows "foldl replaceStep html steps = foldl replaceStep html (take k steps @ drop (Suc k) steps)"
proof -
  from assms(1) have "steps = take k steps @ steps ! k # drop (Suc k) steps"
    by (rule id_take_nth_drop)
  then have "foldl replaceStep html steps =
               foldl replaceStep (replaceStep (foldl replaceStep html (take k steps)) (steps ! k))
                 (drop (Suc k) steps)"
    by (metis foldl_Cons foldl_append)
  also have "replaceStep (foldl replaceStep html (take k steps)) (steps ! k) =
               foldl replaceStep html (take k steps)"
    using assms(2) by (simp add: replaceStep_def replace_absent)
  finally show ?thesis by simp
qed

section \<open>Properties of the slug function\<close>

text \<open>
  C2. For every string the slug is the result of trimming surrounding white space,
  lower-casing, removing every period, replacing each maximal run of white space by a
  single hyphen, and percent-encoding as \<open>encodeURIComponent\<close> does. So every code
  unit of a slug is an ASCII letter or digit, one of the nine marks, or a percent sign.
\<close>

theorem slugify_steps:
  "slugify s = slugSpec s \<and> (\<forall>c \<in> set (slugify s). keptUnit c \<or> c = CHR ''%'')"
proof
  show "slugify s = slugSpec s"
    by (simp add: slugify_def slugSpec_def trim_stripSurrounding toLowerCase_lowerCase
          replace_period_removePeriods replace_spaces_hyphenateRuns
          encodeURIComponent_percentEncode)
  show "\<forall>c \<in> set (slugify s). keptUnit c \<or> c = CHR ''%''"
  proof
    fix c assume "c \<in> set (slugify s)"
    with set_encodeURIComponent
    have "uriUnreserved c \<or> c = CHR ''%'' \<or> (\<exists>k<16. c = hexDigit k)"
      unfolding slugify_def by blast
    with hexDigit_unreserved have "uriUnreserved c \<or> c = CHR ''%''" by blast
    then show "keptUnit c \<or> c = CHR ''%''" by (simp add: uriUnreserved_kept)
  qed
qed

text \<open>
  A heading with capital letters, also one of the Latin-1 supplement (U+00C9), an
  ampersand, periods and runs of white space: the ampersand becomes \<open>%26\<close>, the
  lower-cased letter U+00E9 the two escapes \<open>%C3%A9\<close>.
\<close>

theorem slugify_steps_witness:
  "slugify (''  Q&A   Caf'' @ [CHR 0xC9] @ '' v2.0 '') = ''q%26a-caf%C3%A9-v20'' \<and>
   slugSpec (''  Q&A   Caf'' @ [CHR 0xC9] @ '' v2.0 '') = ''q%26a-caf%C3%A9-v20'' \<and>
   CHR ''q'' \<in> set (slugify (''  Q&A   Caf'' @ [CHR 0xC9] @ '' v2.0 '')) \<and>
   (keptUnit (CHR ''q'') \<or> CHR ''q'' = CHR ''%'')"
proof -
  have a: "slugSpec (''  Q&A   Caf'' @ [CHR 0xC9] @ '' v2.0 '') = ''q%26a-caf%C3%A9-v20''"
    by code_simp
  from slugify_steps [of "''  Q&A   Caf'' @ [CHR 0xC9] @ '' v2.0 ''"]
  have b: "slugify (''  Q&A   Caf'' @ [CHR 0xC9] @ '' v2.0 '') =
             slugSpec (''  Q&A   Caf'' @ [CHR 0xC9] @ '' v2.0 '')"
    and c: "\<forall>c \<in> set (slugify (''  Q&A   Caf'' @ [CHR 0xC9] @ '' v2.0 '')).
              keptUnit c \<or> c = CHR ''%''"
    by (rule conjunct1, rule conjunct2)
  from b a have d: "slugify (''  Q&A   Caf'' @ [CHR 0xC9] @ '' v2.0 '') = ''q%26a-caf%C3%A9-v20''"
    by (rule trans)
  have e: "CHR ''q'' \<in> set (slugify (''  Q&A   Caf'' @ [CHR 0xC9] @ '' v2.0 ''))"
    unfolding d by simp
  from c e have f: "keptUnit (CHR ''q'') \<or> CHR ''q'' = CHR ''%''"
    by (rule bspec)
  from d a e f show ?thesis by (intro conjI)
qed

text \<open>
  C3, as the script has it. The slug is a function of its input. Applying it to its own
  output gives the output again exactly if the output contains no percent sign, that
  is, if no code unit of the normalised text had to be percent-encoded.
\<close>

theorem slugify_idempotent_iff:
  "(slugify (slugify s) = slugify s \<longleftrightarrow> CHR ''%'' \<notin> set (slugify s)) \<and>
   (s = s' \<longrightarrow> slugify s = slugify s')"
proof (intro conjI impI)
  show "slugify (slugify s) = slugify s \<longleftrightarrow> CHR ''%'' \<notin> set (slugify s)"
  proof
    assume idem: "slugify (slugify s) = slugify s"
    show "CHR ''%'' \<notin> set (slugify s)"
    proof
      assume p: "CHR ''%'' \<in> set (slugify s)"
      define t where "t = replace_spaces (replace_period (toLowerCase (trim s)))"
      define out where "out = slugify s"
      have out: "out = encodeURIComponent t" by (simp add: out_def t_def slugify_def)
      have plain: "\<not> isWhiteSpace c \<and> c \<noteq> CHR ''.''" if "c \<in> set out" for c
      proof -
        from that set_encodeURIComponent [of t]
        consider "c \<in> set t" "uriUnreserved c" | "c = CHR ''%''" | k where "k < 16" "c = hexDigit k"
          unfolding out by blast
        then show ?thesis
        proof cases
          case 1
          with normalised_chars [of c "trim s"] show ?thesis by (simp add: t_def)
        next
          case 2
          then show ?thesis by (simp add: isWhiteSpace_def)
        next
          case 3
          from hexDigit_unreserved [OF 3(1)] have "uriUnreserved c" and "c \<noteq> CHR ''.''"
            unfolding 3(2) by simp_all
          then show ?thesis by (simp add: unreserved_not_space)
        qed
      qed
      define u where "u = toLowerCase out"
      have "trim out = out" using plain by (simp add: trim_id)
      moreover have "\<forall>c \<in> set u. c \<noteq> CHR ''.''"
        using plain by (auto simp: u_def toLowerCase_def toLowerUnit_period)
      then have "replace_period u = u" by (rule replace_period_id)
      moreover have "\<forall>c \<in> set u. \<not> isWhiteSpace c"
        using plain by (auto simp: u_def toLowerCase_def toLowerUnit_not_space)
      then have "replace_spaces u = u" by (rule replace_spaces_id)
      ultimately have again: "slugify out = encodeURIComponent u"
        by (simp add: slugify_def u_def)
      have "toLowerUnit (CHR ''%'') \<in> set u"
        using p by (simp add: u_def toLowerCase_def out_def)
      then have "CHR ''%'' \<in> set u" by (simp add: toLowerUnit_def)
      with percent_reserved have "\<exists>c \<in> set u. \<not> uriUnreserved c" by blast
      then have "length u < length (slugify out)"
        unfolding again by (rule length_encodeURIComponent_reserved)
      then have "length out < length (slugify out)" by (simp add: u_def toLowerCase_def)
      with idem show False by (simp add: out_def)
    qed
  next
    assume np: "CHR ''%'' \<notin> set (slugify s)"
    define t where "t = replace_spaces (replace_period (toLowerCase (trim s)))"
    have s: "slugify s = encodeURIComponent t" by (simp add: t_def slugify_def)
    from np have all: "\<forall>c \<in> set t. uriUnreserved c"
      by (simp add: s percent_in_encodeURIComponent)
    then have st: "slugify s = t" by (simp add: s encodeURIComponent_id)
    have "\<forall>c \<in> set t. \<not> isWhiteSpace c \<and> c \<noteq> CHR ''.'' \<and> toLowerUnit c = c"
      using normalised_chars [of _ "trim s"] by (simp add: t_def)
    then have "replace_spaces (replace_period (toLowerCase (trim t))) = t"
      by (rule normalise_id)
    then have "slugify t = encodeURIComponent t" by (simp add: slugify_def)
    with all have "slugify t = t" by (simp add: encodeURIComponent_id)
    then show "slugify (slugify s) = slugify s" by (simp add: st)
  qed
next
  assume "s = s'"
  then show "slugify s = slugify s'" by (rule arg_cong)
qed

text \<open>
  A heading without a reserved code unit: its slug is a fixed point.
\<close>

theorem slugify_idempotent_iff_witness:
  "CHR ''%'' \<notin> set (slugify ''Getting Started'') \<and>
   slugify (slugify ''Getting Started'') = slugify ''Getting Started'' \<and>
   slugify ''Getting Started'' = ''getting-started''"
proof -
  have a: "slugify ''Getting Started'' = ''getting-started''"
    by code_simp
  have b: "CHR ''%'' \<notin> set ''getting-started''"
    by simp
  show ?thesis
    using a b slugify_idempotent_iff [of "''Getting Started''" "''Getting Started''"]
    by simp
qed

text \<open>
  The claim of C3 that the slug of a slug is always the slug fails: the ampersand of
  \<open>Q&A\<close> is encoded as \<open>%26\<close>, and the percent sign of that is encoded again.
\<close>

theorem slugify_not_idempotent_counterexample:
  "slugify ''Q&A'' = ''q%26a'' \<and> slugify (slugify ''Q&A'') = ''q%2526a'' \<and>
   slugify (slugify ''Q&A'') \<noteq> slugify ''Q&A''"
  by code_simp

section \<open>The pager\<close>

text \<open>
  C5. For every manifest of length \<open>N\<close> and every position \<open>currentIndex\<close> of it, the
  pager is the footer with two slots: the first is the "previous" link to
  \<open>manifest[currentIndex - 1]\<close> if \<open>currentIndex > 0\<close> and the empty placeholder
  otherwise, the second is the "next" link to \<open>manifest[currentIndex + 1]\<close> if
  \<open>currentIndex < N - 1\<close> and the empty placeholder otherwise. A link is never equal to
  the placeholder. The positions are the indices the script passes, those of
  \<open>pages.forEach\<close>.
\<close>

theorem generatePageNav_adjacent:
  assumes "0 \<le> currentIndex" and "currentIndex < int (length manifest)"
  shows "generatePageNav manifest currentIndex =
           pager (if currentIndex > 0 then prevLink (manifest ! nat (currentIndex - 1))
                  else emptySlot)
                 (if currentIndex < int (length manifest) - 1
                  then nextLink (manifest ! nat (currentIndex + 1)) else emptySlot) \<and>
         prevLink p \<noteq> emptySlot \<and> nextLink p \<noteq> emptySlot"
  using assms
  by (auto simp: generatePageNav_def at_def pager_def prevLink_def nextLink_def emptySlot_def)

text \<open>
  On the manifest of the script: the first page has only the "next" link, the second
  page both links, the last page only the "previous" link.
\<close>

theorem generatePageNav_adjacent_witness:
  "0 \<le> (0::int) \<and> (0::int) < int (length pages) \<and>
   0 \<le> (1::int) \<and> (1::int) < int (length pages) \<and>
   0 \<le> (5::int) \<and> (5::int) < int (length pages) \<and>
   generatePageNav pages 0 = pager emptySlot (nextLink (pages ! 1)) \<and>
   generatePageNav pages 1 = pager (prevLink (pages ! 0)) (nextLink (pages ! 2)) \<and>
   generatePageNav pages 5 = pager (prevLink (pages ! 4)) emptySlot"
proof -
  have a: "0 \<le> (0::int)" "0 \<le> (1::int)" "0 \<le> (5::int)"
    by simp_all
  have b: "(0::int) < int (length pages)" "(1::int) < int (length pages)"
    "(5::int) < int (length pages)"
    by (simp_all add: pages_def)
  show ?thesis
    using a b generatePageNav_adjacent [OF a(1) b(1)] generatePageNav_adjacent [OF a(2) b(2)]
      generatePageNav_adjacent [OF a(3) b(3)]
    by (simp add: pages_def)
qed

text \<open>
  C10. With a single page and \<open>currentIndex = 0\<close> both slots of the pager are the empty
  placeholder, and the fragment contains no anchor element.
\<close>

theorem generatePageNav_single_page:
  \<open>generatePageNav [p] 0 = pager emptySlot emptySlot \<and>
    generatePageNav [p] 0 =
      ''<footer class="page-nav">\<newline>  <span></span>\<newline>  <span></span>\<newline></footer>'' \<and>
    indexOf (generatePageNav [p] 0) ''<a'' = None\<close>
  by (simp add: generatePageNav_def at_def pager_def emptySlot_def)

section \<open>The breadcrumb\<close>

text \<open>
  C6. For every entry of the manifest: the first entry is rendered as the plain word
  Home, without the Home link and its separator; every other entry is rendered as
  the Home link, the separator \<open>/\<close> and the title of the page. The script decides by
  comparing the title with \<open>Getting Started\<close>, which on its manifest is the title of the
  first entry and of no other.
\<close>

theorem generateBreadcrumb_manifest:
  assumes "i < length pages"
  shows \<open>generateBreadcrumb (title (pages ! i)) =
           (if i = 0 then ''<div class="breadcrumb"><span>Home</span></div>''
            else ''<div class="breadcrumb"><a href="index.html">Home</a> / <span>'' @
                 title (pages ! i) @ ''</span></div>'') \<and>
         indexOf (generateBreadcrumb (title (pages ! 0))) ''Home</a> /'' = None\<close>
proof
  from assms have "i < 6" by (simp add: pages_def)
  then consider "i = 0" | "i = 1" | "i = 2" | "i = 3" | "i = 4" | "i = 5" by linarith
  then show \<open>generateBreadcrumb (title (pages ! i)) =
           (if i = 0 then ''<div class="breadcrumb"><span>Home</span></div>''
            else ''<div class="breadcrumb"><a href="index.html">Home</a> / <span>'' @
                 title (pages ! i) @ ''</span></div>'')\<close>
    by cases (simp_all add: pages_def generateBreadcrumb_def)
  show "indexOf (generateBreadcrumb (title (pages ! 0))) ''Home</a> /'' = None"
    by code_simp
qed

theorem generateBreadcrumb_manifest_witness:
  \<open>(0::nat) < length pages \<and> (4::nat) < length pages \<and>
    generateBreadcrumb (title (pages ! 0)) = ''<div class="breadcrumb"><span>Home</span></div>'' \<and>
    generateBreadcrumb (title (pages ! 4)) =
      ''<div class="breadcrumb"><a href="index.html">Home</a> / <span>Development</span></div>''\<close>
proof -
  have a: "(0::nat) < length pages" and b: "(4::nat) < length pages"
    by (simp_all add: pages_def)
  show ?thesis
    using a b generateBreadcrumb_manifest [OF a, THEN conjunct1]
      generateBreadcrumb_manifest [OF b, THEN conjunct1]
    by (simp add: pages_def)
qed

section \<open>The table of contents\<close>

text \<open>
  C8. The table of contents of no heading is the empty string. Otherwise it is the
  opening of the list, one item for each heading in the order given, and the closing:
  each item links to \<open>#\<close> and the heading's id and shows the heading's text, it carries
  the class \<open>toc-sub\<close> exactly if the heading's level is 3, and it does not depend on the
  headings around it, so the list is flat.
\<close>

theorem generateTOC_flat:
  \<open>generateTOC [] = '''' \<and>
    (headings \<noteq> [] \<longrightarrow>
       generateTOC headings =
         ''<nav class="toc">\<newline><h2>On This Page</h2>\<newline><ul>\<newline>'' @
         concat (map (\<lambda>h. tocItem (level h = 3) h) headings) @
         ''</ul>\<newline></nav>'')\<close>
  by (simp add: generateTOC_def tocItem_def foldl_append_concat Let_def)

text \<open>
  A level-3 heading before a level-2 heading: two items side by side, the first with the
  class.
\<close>

theorem generateTOC_flat_witness:
  \<open>[\<lparr>level = 3, content' = ''Install'', id' = ''install''\<rparr>,
     \<lparr>level = 2, content' = ''Usage'', id' = ''usage''\<rparr>] \<noteq> [] \<and>
    generateTOC [\<lparr>level = 3, content' = ''Install'', id' = ''install''\<rparr>,
                 \<lparr>level = 2, content' = ''Usage'', id' = ''usage''\<rparr>] =
      ''<nav class="toc">\<newline><h2>On This Page</h2>\<newline><ul>\<newline>'' @
      ''  <li class="toc-sub"><a href="#install">Install</a></li>\<newline>'' @
      ''  <li><a href="#usage">Usage</a></li>\<newline>'' @
      ''</ul>\<newline></nav>''\<close>
  using generateTOC_flat
    [of "[\<lparr>level = 3, content' = ''Install'', id' = ''install''\<rparr>,
          \<lparr>level = 2, content' = ''Usage'', id' = ''usage''\<rparr>]"]
  by (simp add: tocItem_def)

section \<open>The heading extractor\<close>

text \<open>
  C9. \<open>extractHeadings\<close> reads \<open>tokens[i + 1]\<close> without a bounds check. If every
  \<open>heading_open\<close> token is followed by at least one more token, the out-of-range read
  is not reached and the extractor returns a heading list; otherwise, which is exactly
  when the last token is a \<open>heading_open\<close>, it throws.
\<close>

theorem extractHeadings_total_iff_followed:
  "(headingOpenFollowed tokens \<longrightarrow> (\<exists>headings. extractHeadings tokens = Inr headings)) \<and>
   (\<not> headingOpenFollowed tokens \<longrightarrow> extractHeadings tokens = Inl TypeError) \<and>
   (tokens \<noteq> [] \<and> type (last tokens) = ''heading_open'' \<longrightarrow>
      extractHeadings tokens = Inl TypeError)"
  using extractHeadings_followed [of tokens] extractHeadings_not_followed [of tokens]
  by (auto simp: headingOpenFollowed_last)

text \<open>
  A heading with its text is extracted; a lone \<open>heading_open\<close> token makes the
  extractor throw.
\<close>

theorem extractHeadings_total_iff_followed_witness:
  "headingOpenFollowed (headingTokens ''h2'' ''Usage'') \<and>
   (\<exists>headings. extractHeadings (headingTokens ''h2'' ''Usage'') = Inr headings) \<and>
   \<not> headingOpenFollowed [\<lparr>type = ''heading_open'', tag = ''h2'', content = ''''\<rparr>] \<and>
   [\<lparr>type = ''heading_open'', tag = ''h2'', content = ''''\<rparr>] \<noteq> [] \<and>
   type (last [\<lparr>type = ''heading_open'', tag = ''h2'', content = ''''\<rparr>]) = ''heading_open'' \<and>
   extractHeadings [\<lparr>type = ''heading_open'', tag = ''h2'', content = ''''\<rparr>] = Inl TypeError"
proof -
  have a: "headingOpenFollowed (headingTokens ''h2'' ''Usage'')"
    by code_simp
  have b: "\<not> headingOpenFollowed [\<lparr>type = ''heading_open'', tag = ''h2'', content = ''''\<rparr>]"
    by code_simp
  show ?thesis
    using a b extractHeadings_total_iff_followed [of "headingTokens ''h2'' ''Usage''"]
      extractHeadings_total_iff_followed
        [of "[\<lparr>type = ''heading_open'', tag = ''h2'', content = ''''\<rparr>]"]
    by simp
qed

text \<open>
  C4, as the script has it. For every token sequence in which every \<open>heading_open\<close>
  token is followed by at least one more token, the extractor returns exactly the
  headings of level 2 or 3, in the order of the sequence; headings of level 1 and of
  level 4 and above are left out.
\<close>

theorem extractHeadings_level_2_3_in_order:
  assumes "headingOpenFollowed tokens"
  shows "extractHeadings tokens = Inr (headingsInOrder tokens) \<and>
         (\<forall>h \<in> set (headingsInOrder tokens). level h = 2 \<or> level h = 3)"
  using assms extractHeadings_followed headingsInOrder_levels by blast

text \<open>
  The sample document, with headings of the levels 1, 2, 3, 4, 2, gives the three
  headings of the levels 2, 3, 2.
\<close>

theorem extractHeadings_level_2_3_in_order_witness:
  "headingOpenFollowed sampleTokens \<and>
   extractHeadings sampleTokens =
     Inr [\<lparr>level = 2, content' = ''Getting Started'', id' = ''getting-started''\<rparr>,
          \<lparr>level = 3, content' = ''Install'', id' = ''install''\<rparr>,
          \<lparr>level = 2, content' = ''Q&A'', id' = ''q%26a''\<rparr>]"
proof -
  have a: "headingOpenFollowed sampleTokens"
    by code_simp
  have b: "headingsInOrder sampleTokens =
             [\<lparr>level = 2, content' = ''Getting Started'', id' = ''getting-started''\<rparr>,
              \<lparr>level = 3, content' = ''Install'', id' = ''install''\<rparr>,
              \<lparr>level = 2, content' = ''Q&A'', id' = ''q%26a''\<rparr>]"
    by code_simp
  show ?thesis
    using a b extractHeadings_level_2_3_in_order [OF a] by simp
qed

text \<open>
  Without that condition the claim of C4 fails: a sequence that ends in a
  \<open>heading_open\<close> token gives no heading list at all, the heading before it included.
\<close>

theorem extractHeadings_trailing_open_counterexample:
  "extractHeadings (headingTokens ''h2'' ''Usage'' @
                    [\<lparr>type = ''heading_open'', tag = ''h3'', content = ''''\<rparr>]) =
     Inl TypeError"
  by code_simp

section \<open>The template\<close>

text \<open>
  C7, as the script has it. The six replacements are applied one after the other, each
  to the text the earlier ones have produced, and none can fail. A replacement changes
  only the first occurrence of its placeholder token in that text: the text before the
  occurrence and everything behind it stay as they are. If the token does not occur in
  that text, the text is returned unchanged, so the fragment is dropped and the result
  is that of the other five replacements.
\<close>

theorem replacePlaceholders_first_or_dropped:
  "(let steps = placeholderSteps pageTitle navList breadcrumb toc body pageNav
    in replacePlaceholders html pageTitle navList breadcrumb toc body pageNav =
         foldl replaceStep html steps \<and>
       (\<forall>k < length steps.
          indexOf (foldl replaceStep html (take k steps)) (fst (steps ! k)) = None \<longrightarrow>
          replacePlaceholders html pageTitle navList breadcrumb toc body pageNav =
            foldl replaceStep html (take k steps @ drop (Suc k) steps))) \<and>
   (indexOf current token = None \<longrightarrow> replace current token fragment = current) \<and>
   (indexOf current token = Some pos \<longrightarrow>
      current = take pos current @ token @ drop (pos + length token) current \<and>
      (\<forall>j < pos. take (length token) (drop j current) \<noteq> token) \<and>
      replace current token fragment =
        take pos current @
        getSubstitution token (take pos current) (drop (pos + length token) current) fragment @
        drop (pos + length token) current)"
proof (intro conjI)
  show "let steps = placeholderSteps pageTitle navList breadcrumb toc body pageNav
        in replacePlaceholders html pageTitle navList breadcrumb toc body pageNav =
             foldl replaceStep html steps \<and>
           (\<forall>k < length steps.
              indexOf (foldl replaceStep html (take k steps)) (fst (steps ! k)) = None \<longrightarrow>
              replacePlaceholders html pageTitle navList breadcrumb toc body pageNav =
                foldl replaceStep html (take k steps @ drop (Suc k) steps))"
    unfolding Let_def replacePlaceholders_foldl
    using foldl_replaceStep_skip by blast
  show "indexOf current token = None \<longrightarrow> replace current token fragment = current"
    by (simp add: replace_absent)
  show "indexOf current token = Some pos \<longrightarrow>
      current = take pos current @ token @ drop (pos + length token) current \<and>
      (\<forall>j < pos. take (length token) (drop j current) \<noteq> token) \<and>
      replace current token fragment =
        take pos current @
        getSubstitution token (take pos current) (drop (pos + length token) current) fragment @
        drop (pos + length token) current"
    using replace_first(1) [of current token pos] replace_first(2) [of current token pos fragment]
      indexOf_Some [of current token pos]
    by blast
qed

text \<open>
  A template without the table-of-contents placeholder: the other five fragments are
  put in and the table of contents is left out. A text with two occurrences of a
  token: only the first is replaced.
\<close>

theorem replacePlaceholders_first_or_dropped_witness:
  "(3::nat) < length (placeholderSteps ''Guide'' ''<ul></ul>'' ''<div></div>'' ''<nav></nav>''
                        ''<p>text</p>'' ''<footer></footer>'') \<and>
   indexOf (foldl replaceStep ''<h1>{{TITLE}}</h1>{{NAV}}{{BREADCRUMB}}{{CONTENT}}{{PAGE_NAV}}''
              (take 3 (placeholderSteps ''Guide'' ''<ul></ul>'' ''<div></div>'' ''<nav></nav>''
                         ''<p>text</p>'' ''<footer></footer>'')))
           ''{{TOC}}'' = None \<and>
   replacePlaceholders ''<h1>{{TITLE}}</h1>{{NAV}}{{BREADCRUMB}}{{CONTENT}}{{PAGE_NAV}}''
       ''Guide'' ''<ul></ul>'' ''<div></div>'' ''<nav></nav>'' ''<p>text</p>'' ''<footer></footer>'' =
     ''<h1>Guide</h1><ul></ul><div></div><p>text</p><footer></footer>'' \<and>
   indexOf ''<h1>{{TITLE}}</h1>'' ''{{TOC}}'' = None \<and>
   replace ''<h1>{{TITLE}}</h1>'' ''{{TOC}}'' ''<nav></nav>'' = ''<h1>{{TITLE}}</h1>'' \<and>
   indexOf ''a {{TOC}} b {{TOC}}'' ''{{TOC}}'' = Some 2 \<and>
   replace ''a {{TOC}} b {{TOC}}'' ''{{TOC}}'' ''<nav></nav>'' = ''a <nav></nav> b {{TOC}}''"
proof -
  let ?tpl = "''<h1>{{TITLE}}</h1>{{NAV}}{{BREADCRUMB}}{{CONTENT}}{{PAGE_NAV}}''"
  let ?steps = "placeholderSteps ''Guide'' ''<ul></ul>'' ''<div></div>'' ''<nav></nav>''
                  ''<p>text</p>'' ''<footer></footer>''"
  have a: "(3::nat) < length ?steps"
    by (simp add: placeholderSteps_def)
  have b: "indexOf (foldl replaceStep ?tpl (take 3 ?steps)) ''{{TOC}}'' = None"
    by code_simp
  have b': "indexOf (foldl replaceStep ?tpl (take 3 ?steps)) (fst (?steps ! 3)) = None"
    by code_simp
  have d: "foldl replaceStep ?tpl (take 3 ?steps @ drop (Suc 3) ?steps) =
             ''<h1>Guide</h1><ul></ul><div></div><p>text</p><footer></footer>''"
    by code_simp
  have e: "indexOf ''<h1>{{TITLE}}</h1>'' ''{{TOC}}'' = None"
    by code_simp
  have f: "indexOf ''a {{TOC}} b {{TOC}}'' ''{{TOC}}'' = Some 2"
    by code_simp
  have g: "take 2 ''a {{TOC}} b {{TOC}}'' @
           getSubstitution ''{{TOC}}'' (take 2 ''a {{TOC}} b {{TOC}}'')
             (drop (2 + length ''{{TOC}}'') ''a {{TOC}} b {{TOC}}'') ''<nav></nav>'' @
           drop (2 + length ''{{TOC}}'') ''a {{TOC}} b {{TOC}}'' = ''a <nav></nav> b {{TOC}}''"
    by code_simp
  note inst1 = replacePlaceholders_first_or_dropped
    [of "''Guide''" "''<ul></ul>''" "''<div></div>''" "''<nav></nav>''" "''<p>text</p>''"
        "''<footer></footer>''" ?tpl "''<h1>{{TITLE}}</h1>''" "''{{TOC}}''" "''<nav></nav>''" 0,
     unfolded Let_def]
  note inst2 = replacePlaceholders_first_or_dropped
    [of "''Guide''" "''<ul></ul>''" "''<div></div>''" "''<nav></nav>''" "''<p>text</p>''"
        "''<footer></footer>''" ?tpl "''a {{TOC}} b {{TOC}}''" "''{{TOC}}''" "''<nav></nav>''" 2]
  have 1: "replacePlaceholders ?tpl ''Guide'' ''<ul></ul>'' ''<div></div>'' ''<nav></nav>''
             ''<p>text</p>'' ''<footer></footer>'' =
           foldl replaceStep ?tpl (take 3 ?steps @ drop (Suc 3) ?steps)"
    by (rule inst1 [THEN conjunct1, THEN conjunct2, rule_format, OF a b'])
  have 2: "replace ''<h1>{{TITLE}}</h1>'' ''{{TOC}}'' ''<nav></nav>'' = ''<h1>{{TITLE}}</h1>''"
    by (rule inst1 [THEN conjunct2, THEN conjunct1, rule_format, OF e])
  have "replace ''a {{TOC}} b {{TOC}}'' ''{{TOC}}'' ''<nav></nav>'' =
          take 2 ''a {{TOC}} b {{TOC}}'' @
           getSubstitution ''{{TOC}}'' (take 2 ''a {{TOC}} b {{TOC}}'')
             (drop (2 + length ''{{TOC}}'') ''a {{TOC}} b {{TOC}}'') ''<nav></nav>'' @
           drop (2 + length ''{{TOC}}'') ''a {{TOC}} b {{TOC}}''"
    by (rule inst2 [THEN conjunct2, THEN conjunct2, rule_format, OF f,
          THEN conjunct2, THEN conjunct2])
  then have 3: "replace ''a {{TOC}} b {{TOC}}'' ''{{TOC}}'' ''<nav></nav>'' = ''a <nav></nav> b {{TOC}}''"
    by (simp only: g)
  from 1 have 1: "replacePlaceholders ?tpl ''Guide'' ''<ul></ul>'' ''<div></div>'' ''<nav></nav>''
             ''<p>text</p>'' ''<footer></footer>'' =
           ''<h1>Guide</h1><ul></ul><div></div><p>text</p><footer></footer>''"
    by (simp only: d)
  show ?thesis
    by (intro conjI a b 1 2 3 e f)
qed

text \<open>
  The claim of C7 that a fragment is dropped whenever its token is absent from the
  template fails: here the template has no pager placeholder, but the body inserted
  for \<open>{{CONTENT}}\<close> contains the text \<open>{{PAGE_NAV}}\<close>, and the later replacement puts
  the pager there.
\<close>

theorem replacePlaceholders_token_in_fragment_counterexample:
  "indexOf ''<main>{{CONTENT}}</main>'' ''{{PAGE_NAV}}'' = None \<and>
   replacePlaceholders ''<main>{{CONTENT}}</main>'' ''Guide'' ''<ul></ul>'' ''<div></div>''
       ''<nav></nav>'' ''<p>{{PAGE_NAV}}</p>'' ''<footer></footer>'' =
     ''<main><p><footer></footer></p></main>''"
  by code_simp

end
